theory Spec2Isabelle
  imports Complex_Main "HOL-Library.Word"
begin

unbundle bit_operations_syntax

section \<open>C doubles\<close>

text \<open>
  A C \<open>double\<close> is a finite number or one of the three IEEE 754 special values.
  Finite arithmetic is taken exact: rounding, overflow of a finite result and the sign
  of zero (every zero is \<open>+0\<close>) are outside this model. What the model keeps is where
  the special values come from (division by zero, \<open>log(0)\<close>, \<open>0 * inf\<close>) and how they
  travel through the arithmetic and the libm calls of the program.
\<close>

datatype c_double = Fin real | PInf | NInf | NaN

fun d_neg :: "c_double \<Rightarrow> c_double" where
  "d_neg (Fin a) = Fin (- a)"
| "d_neg PInf = NInf"
| "d_neg NInf = PInf"
| "d_neg NaN = NaN"

fun d_add :: "c_double \<Rightarrow> c_double \<Rightarrow> c_double" where
  "d_add (Fin a) (Fin b) = Fin (a + b)"
| "d_add (Fin a) PInf = PInf"
| "d_add (Fin a) NInf = NInf"
| "d_add PInf (Fin b) = PInf"
| "d_add PInf PInf = PInf"
| "d_add PInf NInf = NaN"
| "d_add NInf (Fin b) = NInf"
| "d_add NInf PInf = NaN"
| "d_add NInf NInf = NInf"
| "d_add NaN y = NaN"
| "d_add x NaN = NaN"

definition d_sub :: "c_double \<Rightarrow> c_double \<Rightarrow> c_double" where
  "d_sub x y = d_add x (d_neg y)"

text \<open>The infinity carrying the sign of a nonzero finite factor; \<open>0 * inf\<close> is NaN.\<close>

definition signed_inf :: "real \<Rightarrow> c_double" where
  "signed_inf a = (if a = 0 then NaN else if 0 < a then PInf else NInf)"

fun d_mul :: "c_double \<Rightarrow> c_double \<Rightarrow> c_double" where
  "d_mul (Fin a) (Fin b) = Fin (a * b)"
| "d_mul (Fin a) PInf = signed_inf a"
| "d_mul (Fin a) NInf = signed_inf (- a)"
| "d_mul PInf (Fin b) = signed_inf b"
| "d_mul PInf PInf = PInf"
| "d_mul PInf NInf = NInf"
| "d_mul NInf (Fin b) = signed_inf (- b)"
| "d_mul NInf PInf = NInf"
| "d_mul NInf NInf = PInf"
| "d_mul NaN y = NaN"
| "d_mul x NaN = NaN"

text \<open>
  Division: a nonzero finite number over zero is the infinity of its sign, \<open>0 / 0\<close> and
  \<open>inf / inf\<close> are NaN, a finite number over an infinity is zero.
\<close>

fun d_div :: "c_double \<Rightarrow> c_double \<Rightarrow> c_double" where
  "d_div (Fin a) (Fin b) = (if b = 0 then signed_inf a else Fin (a / b))"
| "d_div (Fin a) PInf = Fin 0"
| "d_div (Fin a) NInf = Fin 0"
| "d_div PInf (Fin b) = (if 0 \<le> b then PInf else NInf)"
| "d_div NInf (Fin b) = (if 0 \<le> b then NInf else PInf)"
| "d_div PInf PInf = NaN"
| "d_div PInf NInf = NaN"
| "d_div NInf PInf = NaN"
| "d_div NInf NInf = NaN"
| "d_div NaN y = NaN"
| "d_div x NaN = NaN"

text \<open>The comparison \<open>x > y\<close>: false as soon as one side is NaN.\<close>

fun d_gt :: "c_double \<Rightarrow> c_double \<Rightarrow> bool" where
  "d_gt (Fin a) (Fin b) = (b < a)"
| "d_gt (Fin a) NInf = True"
| "d_gt PInf (Fin b) = True"
| "d_gt PInf NInf = True"
| "d_gt x y = False"

text \<open>The libm functions the program calls, with their C99 Annex F special cases.\<close>

fun d_log :: "c_double \<Rightarrow> c_double" where
  "d_log (Fin a) = (if a = 0 then NInf else if a < 0 then NaN else Fin (ln a))"
| "d_log PInf = PInf"
| "d_log NInf = NaN"
| "d_log NaN = NaN"

fun d_sqrt :: "c_double \<Rightarrow> c_double" where
  "d_sqrt (Fin a) = (if a < 0 then NaN else Fin (sqrt a))"
| "d_sqrt PInf = PInf"
| "d_sqrt NInf = NaN"
| "d_sqrt NaN = NaN"

fun d_exp :: "c_double \<Rightarrow> c_double" where
  "d_exp (Fin a) = Fin (exp a)"
| "d_exp PInf = PInf"
| "d_exp NInf = Fin 0"
| "d_exp NaN = NaN"

fun d_cos :: "c_double \<Rightarrow> c_double" where
  "d_cos (Fin a) = Fin (cos a)"
| "d_cos x = NaN"

text \<open>
  The error function comes from libm, not from the program. On finite arguments it is
  the mathematical function, given here by its Maclaurin series; at the infinities it
  takes its limits.
\<close>

definition erf :: "real \<Rightarrow> real" where
  "erf x = 2 / sqrt pi * (\<Sum>n. (- 1) ^ n * x ^ (2 * n + 1) / (fact n * real (2 * n + 1)))"

fun d_erf :: "c_double \<Rightarrow> c_double" where
  "d_erf (Fin a) = Fin (erf a)"
| "d_erf PInf = Fin 1"
| "d_erf NInf = Fin (- 1)"
| "d_erf NaN = NaN"

text \<open>The conversion \<open>(double)x\<close> of a \<open>uint32_t\<close>, which is exact.\<close>

definition of_u32 :: "32 word \<Rightarrow> c_double" where
  "of_u32 x = Fin (real (unat x))"


section \<open>rng.c: the generator\<close>

text \<open>
  The generator state is the file-static \<open>rng_state\<close>. Every function that reads or
  writes it takes the state and returns the new one.
\<close>

definition UINT32_MAX :: "32 word" where
  "UINT32_MAX = 0xFFFFFFFF"

definition M_PI :: real where
  "M_PI = 314159265358979323846 / 100000000000000000000"

definition rng_seed :: "32 word \<Rightarrow> 32 word" where
  "rng_seed seed = (if seed = 0 then 1 else seed)"

text \<open>\<open>xorshift32\<close> returns the new value and stores it as the new state.\<close>

definition xorshift32 :: "32 word \<Rightarrow> 32 word \<times> 32 word" where
  "xorshift32 state =
     (let x = state;
          x = x XOR push_bit 13 x;
          x = x XOR drop_bit 17 x;
          x = x XOR push_bit 5 x
      in (x, x))"

definition random_double :: "32 word \<Rightarrow> c_double \<times> 32 word" where
  "random_double rng_state =
     (let (x, rng_state') = xorshift32 rng_state
      in (d_div (of_u32 x) (of_u32 UINT32_MAX), rng_state'))"

definition normal_random :: "32 word \<Rightarrow> c_double \<times> 32 word" where
  "normal_random rng_state =
     (let (u1, rng_state1) = random_double rng_state;
          (u2, rng_state2) = random_double rng_state1
      in (d_mul (d_sqrt (d_mul (Fin (- 2)) (d_log u1)))
                (d_cos (d_mul (d_mul (Fin 2) (Fin M_PI)) u2)),
          rng_state2))"

text \<open>
  The stream of the generator: the first \<open>n\<close> uniform draws from a state, and the state
  they leave behind.
\<close>

fun uniform_draws :: "nat \<Rightarrow> 32 word \<Rightarrow> c_double list" where
  "uniform_draws 0 s = []"
| "uniform_draws (Suc n) s = (let (u, s') = random_double s in u # uniform_draws n s')"

fun state_after :: "nat \<Rightarrow> 32 word \<Rightarrow> 32 word" where
  "state_after 0 s = s"
| "state_after (Suc n) s = state_after n (snd (random_double s))"


section \<open>option.c: the payoffs\<close>

definition call_payoff :: "c_double \<Rightarrow> c_double \<Rightarrow> c_double" where
  "call_payoff S K = (if d_gt S K then d_sub S K else Fin 0)"

definition put_payoff :: "c_double \<Rightarrow> c_double \<Rightarrow> c_double" where
  "put_payoff S K = (if d_gt K S then d_sub K S else Fin 0)"


section \<open>gbm.c: the terminal price\<close>

definition simulate_gbm ::
  "c_double \<Rightarrow> c_double \<Rightarrow> c_double \<Rightarrow> c_double \<Rightarrow> 32 word \<Rightarrow> c_double \<times> 32 word" where
  "simulate_gbm S0 r sigma T rng_state =
     (let (Z, rng_state') = normal_random rng_state
      in (d_mul S0
            (d_exp (d_add (d_mul (d_sub r (d_mul (d_mul (Fin 0.5) sigma) sigma)) T)
                          (d_mul (d_mul sigma (d_sqrt T)) Z))),
          rng_state'))"


section \<open>normal.c: the normal distribution function\<close>

definition normal_cdf :: "c_double \<Rightarrow> c_double" where
  "normal_cdf x = d_mul (Fin 0.5) (d_add (Fin 1) (d_erf (d_div x (d_sqrt (Fin 2)))))"

section \<open>monte_carlo.c: the two pricers\<close>

text \<open>
  The \<open>for\<close> loop of \<open>price_european_call_mc\<close>, with its counter \<open>i\<close>, the running
  \<open>payoff_sum\<close> and the generator state.
\<close>

function mc_loop ::
  "c_double \<Rightarrow> c_double \<Rightarrow> c_double \<Rightarrow> c_double \<Rightarrow> c_double \<Rightarrow> 32 word \<Rightarrow>
   32 word \<Rightarrow> c_double \<Rightarrow> 32 word \<Rightarrow> c_double \<times> 32 word" where
  "mc_loop S0 K r sigma T n_sim i payoff_sum rng_state =
     (if i < n_sim then
        (let (ST, rng_state') = simulate_gbm S0 r sigma T rng_state;
             payoff = call_payoff ST K
         in mc_loop S0 K r sigma T n_sim (i + 1) (d_add payoff_sum payoff) rng_state')
      else (payoff_sum, rng_state))"
  by pat_completeness auto
termination
proof (relation "measure (\<lambda>(S0, K, r, sigma, T, n_sim, i, payoff_sum, rng_state).
                   unat n_sim - unat i)")
  show "wf (measure (\<lambda>(S0 :: c_double, K :: c_double, r :: c_double, sigma :: c_double,
                      T :: c_double, n_sim :: 32 word, i :: 32 word,
                      payoff_sum :: c_double, rng_state :: 32 word).
                   unat n_sim - unat i))"
    by simp
next
  fix n_sim i :: "32 word"
  assume lt: "i < n_sim"
  then have below: "unat i < unat n_sim"
    by (simp add: word_less_nat_alt)
  have "unat n_sim < 2 ^ 32"
    using unsigned_less [of n_sim] by simp
  with below have "unat (i + 1) = unat i + 1"
    by (simp add: unat_word_ariths)
  with below have "unat n_sim - unat (i + 1) < unat n_sim - unat i"
    by simp
  then show "\<And>S0 K r sigma T payoff_sum rng_state x xa y xb.
       ((S0 :: c_double, K :: c_double, r :: c_double, sigma :: c_double, T :: c_double,
         n_sim, i + 1, d_add payoff_sum xb, y :: 32 word),
        (S0, K, r, sigma, T, n_sim, i, payoff_sum :: c_double, rng_state :: 32 word))
       \<in> measure (\<lambda>(S0, K, r, sigma, T, n_sim, i, payoff_sum, rng_state).
                   unat n_sim - unat i)"
    by simp
qed

declare mc_loop.simps [simp del]

definition price_european_call_mc ::
  "c_double \<Rightarrow> c_double \<Rightarrow> c_double \<Rightarrow> c_double \<Rightarrow> c_double \<Rightarrow> 32 word \<Rightarrow>
   32 word \<Rightarrow> c_double \<times> 32 word" where
  "price_european_call_mc S0 K r sigma T n_sim rng_state =
     (let (payoff_sum, rng_state') = mc_loop S0 K r sigma T n_sim 0 (Fin 0) rng_state;
          avg_payoff = d_div payoff_sum (of_u32 n_sim);
          discounted_price = d_mul avg_payoff (d_exp (d_mul (d_neg r) T))
      in (discounted_price, rng_state'))"

definition price_european_call_bs ::
  "c_double \<Rightarrow> c_double \<Rightarrow> c_double \<Rightarrow> c_double \<Rightarrow> c_double \<Rightarrow> c_double" where
  "price_european_call_bs S0 K r sigma T =
     (let sqrt_T = d_sqrt T;
          d1 = d_div (d_add (d_log (d_div S0 K))
                            (d_mul (d_add r (d_mul (d_mul (Fin 0.5) sigma) sigma)) T))
                     (d_mul sigma sqrt_T);
          d2 = d_sub d1 (d_mul sigma sqrt_T);
          call_price = d_sub (d_mul S0 (normal_cdf d1))
                             (d_mul (d_mul K (d_exp (d_mul (d_neg r) T)))
                                    (normal_cdf d2))
      in call_price)"


section \<open>The specification's formulas\<close>

text \<open>
  The terminal price as the specification writes it,
  \<open>S0 * exp((r - sigma^2/2) * T + sigma * sqrt(T) * Z)\<close>, for a given normal draw \<open>Z\<close>.
\<close>

definition terminal_price ::
  "c_double \<Rightarrow> c_double \<Rightarrow> c_double \<Rightarrow> c_double \<Rightarrow> c_double \<Rightarrow> c_double" where
  "terminal_price S0 r sigma T Z =
     d_mul S0
       (d_exp (d_add (d_mul (d_sub r (d_div (d_mul sigma sigma) (Fin 2))) T)
                     (d_mul (d_mul sigma (d_sqrt T)) Z)))"

text \<open>
  The payoffs of \<open>n\<close> successive draws of the simulator, in the order they are drawn, and
  their sum, added up from the left starting at zero.
\<close>

fun gbm_payoffs ::
  "nat \<Rightarrow> c_double \<Rightarrow> c_double \<Rightarrow> c_double \<Rightarrow> c_double \<Rightarrow> c_double \<Rightarrow> 32 word \<Rightarrow>
   c_double list" where
  "gbm_payoffs 0 S0 K r sigma T s = []"
| "gbm_payoffs (Suc n) S0 K r sigma T s =
     (let (ST, s') = simulate_gbm S0 r sigma T s
      in call_payoff ST K # gbm_payoffs n S0 K r sigma T s')"

definition d_sum :: "c_double list \<Rightarrow> c_double" where
  "d_sum xs = foldl d_add (Fin 0) xs"

text \<open>The Black-Scholes formula of the specification, over the reals.\<close>

definition Phi :: "real \<Rightarrow> real" where
  "Phi x = 0.5 * (1 + erf (x / sqrt 2))"

definition bs_d1 :: "real \<Rightarrow> real \<Rightarrow> real \<Rightarrow> real \<Rightarrow> real \<Rightarrow> real" where
  "bs_d1 S0 K r sigma T = (ln (S0 / K) + (r + sigma\<^sup>2 / 2) * T) / (sigma * sqrt T)"

definition bs_d2 :: "real \<Rightarrow> real \<Rightarrow> real \<Rightarrow> real \<Rightarrow> real \<Rightarrow> real" where
  "bs_d2 S0 K r sigma T = bs_d1 S0 K r sigma T - sigma * sqrt T"

definition black_scholes_call :: "real \<Rightarrow> real \<Rightarrow> real \<Rightarrow> real \<Rightarrow> real \<Rightarrow> real" where
  "black_scholes_call S0 K r sigma T =
     S0 * Phi (bs_d1 S0 K r sigma T) - K * exp (- r * T) * Phi (bs_d2 S0 K r sigma T)"

section \<open>The generator never leaves the nonzero states\<close>

text \<open>Each xor-shift step is injective, so only zero is sent to zero.\<close>

lemma xor_zero_eq: fixes x y :: "32 word" assumes "x XOR y = 0" shows "x = y"
proof -
  from assms have "(x XOR y) XOR y = 0 XOR y" by simp
  then show ?thesis by (simp add: xor.assoc)
qed

lemma shl_fix: fixes x :: "32 word" assumes "0 < k" "x XOR push_bit k x = 0" shows "x = 0"
proof -
  from assms(2) have eq: "x = push_bit k x" by (rule xor_zero_eq)
  have "\<not> bit x n" for n
  proof (induction n rule: less_induct)
    case (less n)
    have step: "bit x n = bit (push_bit k x) n" using eq by simp
    show ?case
    proof (cases "n < k")
      case True
      with step show ?thesis by (simp add: bit_simps)
    next
      case False
      from step have "bit x n \<longrightarrow> bit x (n - k)" by (simp add: bit_simps)
      moreover have "n - k < n" using False assms(1) by simp
      ultimately show ?thesis using less.IH by blast
    qed
  qed
  then show ?thesis by (simp add: bit_eq_iff)
qed

lemma shr_fix: fixes x :: "32 word" assumes "0 < k" "x XOR drop_bit k x = 0" shows "x = 0"
proof -
  from assms(2) have eq: "x = drop_bit k x" by (rule xor_zero_eq)
  have up: "bit x n \<Longrightarrow> bit x (k + n)" for n
  proof -
    assume "bit x n"
    then have "bit (drop_bit k x) n" using eq by simp
    then show ?thesis by (simp add: bit_simps)
  qed
  have "\<not> bit x n" for n
  proof (induction "32 - n" arbitrary: n rule: less_induct)
    case less
    show ?case
    proof
      assume b: "bit x n"
      then have b2: "bit x (k + n)" by (rule up)
      then have "k + n < 32" using bit_imp_le_length [of x "k + n"] by simp
      then have "32 - (k + n) < 32 - n" using assms(1) by simp
      with b2 less show False by blast
    qed
  qed
  then show ?thesis by (simp add: bit_eq_iff)
qed


lemma xorshift32_nonzero:
  assumes "s \<noteq> 0" shows "fst (xorshift32 s) \<noteq> 0"
proof
  let ?x1 = "s XOR push_bit 13 s"
  let ?x2 = "?x1 XOR drop_bit 17 ?x1"
  assume "fst (xorshift32 s) = 0"
  then have "?x2 XOR push_bit 5 ?x2 = 0" by (simp add: xorshift32_def Let_def)
  then have "?x2 = 0" by (rule shl_fix [rotated]) simp
  then have "?x1 = 0" by (rule shr_fix [rotated]) simp
  then have "s = 0" by (rule shl_fix [rotated]) simp
  with assms show False by simp
qed

lemma xorshift32_zero: "xorshift32 0 = (0, 0)"
  by (simp add: xorshift32_def)

lemma xorshift32_state: "snd (xorshift32 s) = fst (xorshift32 s)"
  by (simp add: xorshift32_def Let_def)

lemma random_double_eq:
  "random_double s =
     (Fin (real (unat (fst (xorshift32 s))) / 4294967295), fst (xorshift32 s))"
  by (simp add: random_double_def of_u32_def UINT32_MAX_def split_beta xorshift32_state)

lemma unat_u32_le: "real (unat (x :: 32 word)) \<le> 4294967295"
proof -
  have "unat x < 2 ^ 32" using unsigned_less [of x] by simp
  then have "unat x \<le> 4294967295" by simp
  then have "real (unat x) \<le> real 4294967295" by (simp only: of_nat_le_iff)
  then show ?thesis by simp
qed

lemma unat_u32_pos: "x \<noteq> 0 \<Longrightarrow> 1 \<le> real (unat (x :: 32 word))"
proof -
  assume "x \<noteq> 0"
  then have "1 \<le> unat x" by (simp add: unat_gt_0 Suc_le_eq)
  then have "real 1 \<le> real (unat x)" by (simp only: of_nat_le_iff)
  then show ?thesis by simp
qed

lemma state_after_nonzero: "s \<noteq> 0 \<Longrightarrow> state_after n s \<noteq> 0"
  by (induction n arbitrary: s) (simp_all add: random_double_eq xorshift32_nonzero)

lemma rng_seed_nonzero: "rng_seed seed \<noteq> 0"
  by (simp add: rng_seed_def)

lemma normal_random_nonzero:
  assumes "s \<noteq> 0"
  shows "normal_random s =
     (Fin (sqrt (- 2 * ln (real (unat (fst (xorshift32 s))) / 4294967295)) *
           cos (2 * M_PI * (real (unat (fst (xorshift32 (fst (xorshift32 s))))) / 4294967295))),
      fst (xorshift32 (fst (xorshift32 s))))"
proof -
  let ?x1 = "fst (xorshift32 s)"
  let ?u1 = "real (unat ?x1) / 4294967295"
  have "?x1 \<noteq> 0" using assms by (rule xorshift32_nonzero)
  then have pos: "0 < ?u1" using unat_u32_pos [of ?x1] by simp
  have "?u1 \<le> 1" using unat_u32_le [of ?x1] by simp
  with pos have "ln ?u1 \<le> 0" by simp
  then have nonneg: "\<not> - 2 * ln ?u1 < 0" by simp
  from pos have lg: "d_log (Fin ?u1) = Fin (ln ?u1)" by simp
  show ?thesis
    unfolding normal_random_def random_double_eq Let_def split_conv lg
    using nonneg by simp
qed

text \<open>
  Every draw lies in the closed interval from 0 to 1, and the upper end is taken when
  the new state is \<open>UINT32_MAX\<close>.
\<close>

lemma random_double_range:
  "\<exists>u. fst (random_double s) = Fin u \<and> 0 \<le> u \<and> u \<le> 1 \<and>
       (u = 1) = (snd (random_double s) = UINT32_MAX)"
proof -
  let ?x = "fst (xorshift32 s)"
  let ?u = "real (unat ?x) / 4294967295"
  have "real (unat ?x) = real 4294967295 \<longleftrightarrow> unat ?x = 4294967295"
    by (simp only: of_nat_eq_iff)
  also have "\<dots> \<longleftrightarrow> ?x = UINT32_MAX"
    using word_unat_eq_iff [of ?x UINT32_MAX] by (simp add: UINT32_MAX_def)
  finally have one: "(?u = 1) = (?x = UINT32_MAX)"
    by simp
  have "0 \<le> real (unat ?x)" by (rule of_nat_0_le_iff)
  then have "0 \<le> ?u" by (rule divide_nonneg_pos) simp
  moreover have "?u \<le> 1" using unat_u32_le [of ?x] by simp
  moreover have "fst (random_double s) = Fin ?u" "snd (random_double s) = ?x"
    by (simp_all add: random_double_eq)
  ultimately show ?thesis using one by (intro exI [of _ ?u]) (simp only: simp_thms)
qed

text \<open>
  Claim C3. A uniform draw is meant to lie in \<open>[0, 1)\<close>. The divisor is \<open>UINT32_MAX\<close>,
  so after seeding with \<open>0x5E6CFCE7\<close>, whose successor state is \<open>0xFFFFFFFF\<close>, the first
  draw is exactly 1.
\<close>

theorem uniform_draw_can_be_one:
  "random_double (rng_seed 0x5E6CFCE7) = (Fin 1, 0xFFFFFFFF)"
  by (simp add: rng_seed_def random_double_def xorshift32_def of_u32_def UINT32_MAX_def)

text \<open>
  Claim C8. Seeding with 0 leaves the same state as seeding with 1, and the stream of
  uniform draws that follows is the same, whatever its length.
\<close>

theorem seed_zero_is_seed_one:
  "rng_seed 0 = rng_seed 1 \<and> uniform_draws n (rng_seed 0) = uniform_draws n (rng_seed 1)"
  by (simp add: rng_seed_def)

text \<open>
  Claim C7, as stated, fails on the zero state (the state of a generator that was never
  seeded): the first uniform draw is 0, its logarithm is taken, and the sample is
  \<open>+inf\<close>.
\<close>

theorem normal_random_zero_state: "fst (random_double 0) = Fin 0 \<and> normal_random 0 = (PInf, 0)"
  by (simp add: normal_random_def random_double_def xorshift32_def of_u32_def
        UINT32_MAX_def signed_inf_def)

text \<open>
  Claim C7, amended. \<open>normal_random\<close> has no guard of its own: it takes the logarithm of
  the first draw as it comes. On the zero state it returns \<open>+inf\<close> and leaves the state
  at zero; on every other state the first draw is positive and the result is the
  Box-Muller value of the two draws.
\<close>

theorem normal_random_unguarded:
  "normal_random s =
     (if s = 0 then (PInf, 0)
      else (Fin (sqrt (- 2 * ln (real (unat (fst (xorshift32 s))) / 4294967295)) *
                 cos (2 * M_PI *
                      (real (unat (fst (xorshift32 (fst (xorshift32 s))))) / 4294967295))),
            fst (xorshift32 (fst (xorshift32 s)))))"
proof (cases "s = 0")
  case True
  then show ?thesis
    by (simp add: normal_random_def random_double_def xorshift32_def of_u32_def
        UINT32_MAX_def signed_inf_def)
next
  case False
  then show ?thesis by (simp add: normal_random_nonzero)
qed

text \<open>
  Claim C10. After \<open>rng_seed\<close> and any number of draws the state is nonzero and so is
  its successor; the next uniform draw is at least \<open>1 / (2^32 - 1)\<close>, hence positive, the
  logarithm in \<open>normal_random\<close> is taken at a positive argument, and the normal sample is
  finite.
\<close>

theorem seeded_state_never_zero:
  "state_after n (rng_seed seed) \<noteq> 0 \<and>
   snd (xorshift32 (state_after n (rng_seed seed))) \<noteq> 0 \<and>
   (\<exists>u1. fst (random_double (state_after n (rng_seed seed))) = Fin u1 \<and>
         1 / (2 ^ 32 - 1) \<le> u1 \<and> 0 < u1 \<and> d_log (Fin u1) = Fin (ln u1)) \<and>
   (\<exists>z. fst (normal_random (state_after n (rng_seed seed))) = Fin z)"
proof -
  let ?s = "state_after n (rng_seed seed)"
  let ?x1 = "fst (xorshift32 ?s)"
  let ?u1 = "real (unat ?x1) / 4294967295"
  have s: "?s \<noteq> 0" by (rule state_after_nonzero [OF rng_seed_nonzero])
  then have x1: "?x1 \<noteq> 0" by (rule xorshift32_nonzero)
  then have lb: "1 / (2 ^ 32 - 1) \<le> ?u1"
    using unat_u32_pos [of ?x1] by (simp add: divide_right_mono)
  then have pos: "0 < ?u1" by simp
  have nr: "\<exists>z. fst (normal_random ?s) = Fin z"
    by (simp add: normal_random_nonzero [OF s])
  have "fst (random_double ?s) = Fin ?u1" by (simp add: random_double_eq)
  moreover from pos have "d_log (Fin ?u1) = Fin (ln ?u1)" by simp
  ultimately have "\<exists>u1. fst (random_double ?s) = Fin u1 \<and>
         1 / (2 ^ 32 - 1) \<le> u1 \<and> 0 < u1 \<and> d_log (Fin u1) = Fin (ln u1)"
    using lb pos by blast
  with s x1 nr show ?thesis by (simp only: xorshift32_state simp_thms)
qed


section \<open>The payoffs\<close>

text \<open>
  Claim C9. For real \<open>S\<close> and \<open>K\<close> the call payoff minus the put payoff is \<open>S - K\<close>, and
  their sum is \<open>|S - K|\<close>.
\<close>

theorem payoff_parity:
  "d_sub (call_payoff (Fin S) (Fin K)) (put_payoff (Fin S) (Fin K)) = Fin (S - K) \<and>
   d_add (call_payoff (Fin S) (Fin K)) (put_payoff (Fin S) (Fin K)) = Fin \<bar>S - K\<bar>"
  by (simp add: call_payoff_def put_payoff_def d_sub_def)


section \<open>The simulator\<close>

lemma half_square: "d_mul (d_mul (Fin (1 / 2)) x) x = d_div (d_mul x x) (Fin 2)"
  by (cases x) (simp_all add: signed_inf_def)

lemma normal_random_state: "snd (normal_random s) = state_after 2 s"
  by (simp add: normal_random_def split_beta numeral_2_eq_2)

lemma simulate_gbm_state: "snd (simulate_gbm S0 r sigma T s) = state_after 2 s"
  by (simp add: simulate_gbm_def split_beta normal_random_state)

lemma state_after_add: "state_after (m + n) s = state_after n (state_after m s)"
  by (induction m arbitrary: s) simp_all

text \<open>On finite arguments the specification's terminal price is the real formula.\<close>

lemma terminal_price_finite:
  "0 \<le> T \<Longrightarrow>
   terminal_price (Fin S0) (Fin r) (Fin sigma) (Fin T) (Fin Z) =
     Fin (S0 * exp ((r - sigma\<^sup>2 / 2) * T + sigma * sqrt T * Z))"
  by (simp add: terminal_price_def d_sub_def power2_eq_square)

text \<open>
  Claim C6. \<open>simulate_gbm\<close> calls \<open>normal_random\<close> once, which advances the generator by
  two uniform draws, and returns the specification's terminal price for that sample,
  with the correction term \<open>- sigma^2 / 2\<close>.
\<close>

theorem simulate_gbm_closed_form:
  "simulate_gbm S0 r sigma T s =
     (terminal_price S0 r sigma T (fst (normal_random s)), snd (normal_random s)) \<and>
   snd (normal_random s) = state_after 2 s"
  by (simp add: simulate_gbm_def terminal_price_def split_beta half_square normal_random_state)


section \<open>The Monte Carlo pricer\<close>

lemma unat_succ_below:
  fixes i n_sim :: "32 word"
  assumes "i < n_sim"
  shows "unat (i + 1) = Suc (unat i)"
proof -
  from assms have "unat i < unat n_sim" by (simp add: word_less_nat_alt)
  moreover have "unat n_sim < 2 ^ 32" using unsigned_less [of n_sim] by simp
  ultimately show ?thesis by (simp add: unat_word_ariths)
qed

text \<open>
  The loop, entered with counter \<open>i\<close> and \<open>k\<close> rounds to go, adds the next \<open>k\<close> payoffs to
  the running sum, one after the other, and draws \<open>2 * k\<close> uniforms.
\<close>

lemma mc_loop_sum:
  "unat n_sim - unat i = k \<Longrightarrow>
   mc_loop S0 K r sigma T n_sim i payoff_sum s =
     (foldl d_add payoff_sum (gbm_payoffs k S0 K r sigma T s), state_after (2 * k) s)"
proof (induction k arbitrary: i payoff_sum s)
  case 0
  then have "\<not> i < n_sim" by (simp add: word_less_nat_alt)
  then show ?case by (simp add: mc_loop.simps)
next
  case (Suc k)
  then have lt: "i < n_sim" by (simp add: word_less_nat_alt)
  obtain ST s' where draw: "simulate_gbm S0 r sigma T s = (ST, s')"
    by (cases "simulate_gbm S0 r sigma T s")
  then have s': "s' = state_after 2 s"
    using simulate_gbm_state [of S0 r sigma T s] by simp
  from Suc.prems lt have "unat n_sim - unat (i + 1) = k"
    by (simp add: unat_succ_below)
  then have "mc_loop S0 K r sigma T n_sim (i + 1) (d_add payoff_sum (call_payoff ST K)) s' =
      (foldl d_add (d_add payoff_sum (call_payoff ST K)) (gbm_payoffs k S0 K r sigma T s'),
       state_after (2 * k) s')"
    by (rule Suc.IH)
  moreover have "state_after (2 * Suc k) s = state_after (2 * k) s'"
    using state_after_add [of 2 "2 * k" s] by (simp add: s')
  ultimately show ?case
    using lt draw by (subst mc_loop.simps) simp
qed

text \<open>
  Claim C4. The Monte Carlo price is the sum of the payoffs of \<open>n_sim\<close> successive draws,
  divided by \<open>n_sim\<close> and then multiplied by \<open>exp(-r * T)\<close>; the generator has advanced by
  the \<open>2 * n_sim\<close> uniform draws of those samples. This holds for every input, the valid
  ones among them.
\<close>

theorem mc_price_is_discounted_mean:
  "price_european_call_mc S0 K r sigma T n_sim s =
     (d_mul (d_div (d_sum (gbm_payoffs (unat n_sim) S0 K r sigma T s)) (of_u32 n_sim))
            (d_exp (d_mul (d_neg r) T)),
      state_after (2 * unat n_sim) s)"
  by (simp add: price_european_call_mc_def d_sum_def mc_loop_sum [where k = "unat n_sim"])

text \<open>
  Claim C1, as stated, fails: with \<open>n_sim = 0\<close> and otherwise valid arguments the pricer
  does not fail, it returns NaN.
\<close>

theorem mc_zero_simulations_example:
  "price_european_call_mc (Fin 100) (Fin 100) (Fin 0.05) (Fin 0.2) (Fin 1) 0 123456 =
     (NaN, 123456)"
  by (simp add: price_european_call_mc_def mc_loop.simps of_u32_def signed_inf_def)

text \<open>
  A spot price that is not positive is not refused either: every terminal price is then
  at most zero and every payoff against a non-negative strike is zero.
\<close>

lemma nonpositive_spot_payoff:
  assumes "S0 \<le> 0" "0 \<le> K" "s \<noteq> 0" "0 \<le> T"
  shows "call_payoff (fst (simulate_gbm (Fin S0) (Fin r) (Fin sigma) (Fin T) s)) (Fin K) = Fin 0"
proof -
  obtain z where z: "fst (normal_random s) = Fin z"
    using normal_random_nonzero [OF assms(3)] by simp
  have "S0 * exp t \<le> 0" for t
    using assms(1) by (simp add: mult_le_0_iff)
  then have "\<not> K < S0 * exp t" for t
    using assms(2) order_trans [of "S0 * exp t" 0 K] by (simp add: not_less)
  then show ?thesis
    using assms(4) z by (simp add: simulate_gbm_def split_beta call_payoff_def d_sub_def)
qed

lemma mc_negative_spot_example:
  "price_european_call_mc (Fin (- 100)) (Fin 100) (Fin 0.05) (Fin 0.2) (Fin 1) 1 1 =
     (Fin 0, 67634689)"
proof -
  have pay: "call_payoff (fst (simulate_gbm (Fin (- 100)) (Fin 0.05) (Fin 0.2) (Fin 1) 1)) (Fin 100) = Fin 0"
    by (rule nonpositive_spot_payoff) simp_all
  have x1: "xorshift32 1 = (270369, 270369)"
    by (simp add: xorshift32_def)
  have x2: "xorshift32 270369 = (67634689, 67634689)"
    by (simp add: xorshift32_def)
  have "state_after 2 1 = state_after (Suc (Suc 0)) 1"
    by (simp only: numeral_2_eq_2)
  then have st: "state_after 2 1 = 67634689"
    by (simp add: random_double_eq x1 x2)
  have "gbm_payoffs 1 (Fin (- 100)) (Fin 100) (Fin 0.05) (Fin 0.2) (Fin 1) 1 = [Fin 0]"
    using pay by (simp add: split_beta)
  then show ?thesis
    using mc_loop_sum [of 1 0 1 "Fin (- 100)" "Fin 100" "Fin 0.05" "Fin 0.2" "Fin 1" "Fin 0" 1] st
    by (simp add: price_european_call_mc_def of_u32_def)
qed

text \<open>
  Claim C1, amended. The pricer checks none of its arguments and has no way to fail.
  For every \<open>S0\<close>, \<open>K\<close>, \<open>r\<close>, \<open>sigma\<close>, \<open>T\<close> and \<open>n_sim\<close>, valid or not, it runs all
  \<open>n_sim\<close> draws, so that the generator advances by \<open>2 * n_sim\<close> uniform draws, and returns
  the payoffs added up from the left, divided by \<open>n_sim\<close> and multiplied by
  \<open>exp(-r * T)\<close>. With \<open>n_sim = 0\<close> that is no draw, the generator where it was and the
  NaN of \<open>0.0 / 0\<close>; with the negative spot \<open>S0 = -100\<close> and one draw after \<open>rng_seed(1)\<close>
  it is the price 0.
\<close>

theorem mc_unvalidated:
  "price_european_call_mc S0 K r sigma T n_sim s =
     (d_mul (d_div (foldl d_add (Fin 0) (gbm_payoffs (unat n_sim) S0 K r sigma T s))
                   (of_u32 n_sim))
            (d_exp (d_mul (d_neg r) T)),
      state_after (2 * unat n_sim) s) \<and>
   price_european_call_mc S0 K r sigma T 0 s = (NaN, s) \<and>
   price_european_call_mc (Fin (- 100)) (Fin 100) (Fin 0.05) (Fin 0.2) (Fin 1) 1 (rng_seed 1) =
     (Fin 0, 67634689)"
proof (intro conjI)
  show "price_european_call_mc S0 K r sigma T n_sim s =
     (d_mul (d_div (foldl d_add (Fin 0) (gbm_payoffs (unat n_sim) S0 K r sigma T s))
                   (of_u32 n_sim))
            (d_exp (d_mul (d_neg r) T)),
      state_after (2 * unat n_sim) s)"
    by (simp add: price_european_call_mc_def mc_loop_sum [where k = "unat n_sim"])
  show "price_european_call_mc S0 K r sigma T 0 s = (NaN, s)"
    by (simp add: price_european_call_mc_def mc_loop.simps of_u32_def signed_inf_def)
  show "price_european_call_mc (Fin (- 100)) (Fin 100) (Fin 0.05) (Fin 0.2) (Fin 1) 1 (rng_seed 1) =
     (Fin 0, 67634689)"
    using mc_negative_spot_example by (simp add: rng_seed_def)
qed


section \<open>The Black-Scholes pricer\<close>

lemma normal_cdf_finite: "normal_cdf (Fin x) = Fin (Phi x)"
  by (simp add: normal_cdf_def Phi_def)


text \<open>
  Claim C5. For positive spot, strike, volatility and maturity the analytic price is the
  Black-Scholes formula \<open>S0 * Phi(d1) - K * exp(-r * T) * Phi(d2)\<close>.
\<close>

theorem bs_price_is_formula:
  assumes "0 < S0" "0 < K" "0 < sigma" "0 < T"
  shows "price_european_call_bs (Fin S0) (Fin K) (Fin r) (Fin sigma) (Fin T) =
           Fin (black_scholes_call S0 K r sigma T)"
proof -
  from assms have den: "sigma * sqrt T \<noteq> 0" by simp
  from assms have quot: "S0 / K \<noteq> 0" "\<not> S0 / K < 0"
    by (simp_all add: divide_less_0_iff not_less less_imp_le)
  have d1: "d_div (d_add (d_log (d_div (Fin S0) (Fin K)))
                     (d_mul (d_add (Fin r) (d_mul (d_mul (Fin 0.5) (Fin sigma)) (Fin sigma))) (Fin T)))
                  (d_mul (Fin sigma) (d_sqrt (Fin T))) = Fin (bs_d1 S0 K r sigma T)"
    using assms den quot by (simp add: bs_d1_def power2_eq_square)
  show ?thesis
    unfolding price_european_call_bs_def Let_def d1
    using assms by (simp add: normal_cdf_finite d_sub_def black_scholes_call_def bs_d2_def)
qed

theorem bs_price_is_formula_witness:
  "(0::real) < 100 \<and> (0::real) < 100 \<and> (0::real) < 0.2 \<and> (0::real) < 1 \<and>
   price_european_call_bs (Fin 100) (Fin 100) (Fin 0.05) (Fin 0.2) (Fin 1) =
     Fin (black_scholes_call 100 100 0.05 0.2 1)"
  using bs_price_is_formula [of 100 100 "0.2" 1 "0.05"] by simp





end
